theory Spec2Isabelle
  imports Complex_Main
begin

section \<open>Image annotator: session state and one script run\<close>

text \<open>
  The program is a single script, \<^verbatim>\<open>main()\<close> of \<^verbatim>\<open>src/image_annotator.py\<close>, which the
  presentation framework executes from the top on every user interaction. The session
  state outlives the run; the widgets return the user's current input. One execution
  of the script is modelled as a function from the widget values of that run and the
  session state before it to an outcome and the session state after it.

  Python's floats are modelled as exact reals: the model is the program up to floating
  rounding. This includes the truncation \<^verbatim>\<open>int(display_width * aspect_ratio)\<close>, taken
  here of the exact product: where that product is a whole number, the program's float
  product can fall just below it, and the program's display height is then one less.
\<close>

subsection \<open>Data model\<close>

text \<open>A row of the annotations table, columns \<^verbatim>\<open>['x', 'y', 'label', 'timestamp']\<close>.\<close>

record annotation =
  x :: real
  y :: real
  label :: string
  timestamp :: string

text \<open>The keys of \<^verbatim>\<open>st.session_state\<close> (lines 16 to 32).\<close>

record session =
  annotations :: "annotation list"
  image_width :: nat
  image_height :: nat
  display_width :: nat
  awaiting_label :: bool
  current_point :: "(real \<times> real) option"

definition init_state :: session where
  "init_state =
     \<lparr>annotations = [], image_width = 0, image_height = 0, display_width = 800,
      awaiting_label = False, current_point = None\<rparr>"

text \<open>
  What the framework hands to one run of the script: the decoded upload (its size), the
  slider, the buttons (\<open>True\<close> when pressed in this run), the click component's value,
  whether calling the click component raised \<^verbatim>\<open>ImportError\<close>, the two number inputs of
  the fallback, the text of the label box, and the clock.
\<close>

record inputs =
  uploaded_file :: "(nat \<times> nat) option"
  slider_display_width :: nat
  clear_button :: bool
  clicked_coords :: "(real \<times> real) option"
  import_error :: bool
  number_input_x :: int
  number_input_y :: int
  set_point_button :: bool
  text_input_label :: string
  submitted :: bool
  cancel :: bool
  undo_button :: bool
  now :: string

datatype error = ZeroDivisionError

text \<open>
  How a run ends: the script reaches its end, it calls \<^verbatim>\<open>st.rerun()\<close>, or an exception
  leaves \<^verbatim>\<open>main\<close>. The session state written before that moment stays written in all
  three cases.
\<close>

datatype outcome = Done | Rerun | Raised error

subsection \<open>Coordinate mapper (lines 79 to 88, 101 to 102, 139 to 140)\<close>

text \<open>
  \<^verbatim>\<open>aspect_ratio = height / width\<close>,
  \<^verbatim>\<open>display_height = int(display_width * aspect_ratio)\<close>,
  \<^verbatim>\<open>scale_x = width / display_width\<close>, \<^verbatim>\<open>scale_y = height / display_height\<close>.
  Python's \<^verbatim>\<open>/\<close> raises on a zero divisor. The call \<^verbatim>\<open>image.resize\<close> between the second
  and the third line belongs to the imaging library and is not modelled; the division
  by \<^verbatim>\<open>display_height\<close> is the latest point at which a zero display height raises.
\<close>

definition display_height_of :: "nat \<Rightarrow> nat \<Rightarrow> nat \<Rightarrow> error + nat" where
  "display_height_of width height dw =
     (if width = 0 then Inl ZeroDivisionError
      else let aspect_ratio = real height / real width
           in Inr (nat \<lfloor>real dw * aspect_ratio\<rfloor>))"

definition scale_factors :: "nat \<Rightarrow> nat \<Rightarrow> nat \<Rightarrow> error + (real \<times> real)" where
  "scale_factors width height dw =
     (case display_height_of width height dw of
        Inl e \<Rightarrow> Inl e
      | Inr display_height \<Rightarrow>
          if dw = 0 then Inl ZeroDivisionError
          else if display_height = 0 then Inl ZeroDivisionError
          else Inr (real width / real dw, real height / real display_height))"

text \<open>
  Lines 139 and 140: a click in the displayed image, in original coordinates. The
  products are exact here; the program's are rounded to doubles.
\<close>

definition to_original :: "real \<times> real \<Rightarrow> real \<times> real \<Rightarrow> real \<times> real" where
  "to_original sc c = (fst c * fst sc, snd c * snd sc)"

text \<open>Lines 101 and 102: a stored annotation, in display coordinates.\<close>

definition to_display :: "real \<times> real \<Rightarrow> real \<times> real \<Rightarrow> real \<times> real" where
  "to_display sc p = (fst p / fst sc, snd p / snd sc)"

text \<open>
  Lines 95 to 127 draw every stored annotation at its display position. Drawing changes
  no session state; the positions are kept here because the mapper's inverse is part
  of the specification.
\<close>

definition drawn_points :: "real \<times> real \<Rightarrow> annotation list \<Rightarrow> (real \<times> real) list" where
  "drawn_points sc anns = map (\<lambda>row. to_display sc (x row, y row)) anns"

subsection \<open>The sections of the script\<close>

text \<open>Sequencing: the next section runs only if the previous one fell through.\<close>

definition and_then ::
  "outcome \<times> session \<Rightarrow> (session \<Rightarrow> outcome \<times> session) \<Rightarrow> outcome \<times> session" where
  "and_then r f = (case fst r of Done \<Rightarrow> f (snd r) | Rerun \<Rightarrow> r | Raised e \<Rightarrow> r)"

text \<open>
  Lines 35 to 61, the sidebar. The slider's value is stored on every run. The download
  and the Clear button exist only while there are annotations; the CSV text handed to
  the download button is made by the table library and changes no state.
\<close>

definition sidebar :: "inputs \<Rightarrow> session \<Rightarrow> outcome \<times> session" where
  "sidebar i s =
     (let s1 = s\<lparr>display_width := slider_display_width i\<rparr>
      in if length (annotations s1) > 0 then
           if clear_button i then
             (Rerun, s1\<lparr>annotations := [], awaiting_label := False, current_point := None\<rparr>)
           else (Done, s1)
         else (Done, s1))"

text \<open>
  Lines 129 to 165, the click on the image. With the click component, a click is taken
  only while no point awaits its label. If calling the component raises \<^verbatim>\<open>ImportError\<close>,
  the two number inputs and the Set Point button replace it.
\<close>

definition image_column :: "inputs \<Rightarrow> real \<times> real \<Rightarrow> session \<Rightarrow> outcome \<times> session" where
  "image_column i sc s =
     (if import_error i then
        if set_point_button i then
          (Rerun, s\<lparr>current_point := Some (real_of_int (number_input_x i),
                                              real_of_int (number_input_y i)),
                     awaiting_label := True\<rparr>)
        else (Done, s)
      else
        case clicked_coords i of
          None \<Rightarrow> (Done, s)
        | Some c \<Rightarrow>
            if \<not> awaiting_label s then
              (Rerun, s\<lparr>current_point := Some (to_original sc c), awaiting_label := True\<rparr>)
            else (Done, s))"

text \<open>
  Lines 171 to 208, the label form. It is shown only for a pending point. Python's
  \<^verbatim>\<open>if submitted and label\<close> is false for the empty string.
\<close>

definition annotation_form :: "inputs \<Rightarrow> session \<Rightarrow> outcome \<times> session" where
  "annotation_form i s =
     (if awaiting_label s then
        case current_point s of
          None \<Rightarrow> (Done, s)
        | Some p \<Rightarrow>
            if submitted i \<and> text_input_label i \<noteq> [] then
              let new_row = \<lparr>x = fst p, y = snd p, label = text_input_label i,
                             timestamp = now i\<rparr>;
                  s1 = (if length (annotations s) = 0 then s\<lparr>annotations := [new_row]\<rparr>
                        else s\<lparr>annotations := annotations s @ [new_row]\<rparr>)
              in (Rerun, s1\<lparr>current_point := None, awaiting_label := False\<rparr>)
            else if cancel i then
              (Rerun, s\<lparr>current_point := None, awaiting_label := False\<rparr>)
            else (Done, s)
      else (Done, s))"

text \<open>
  Lines 213 to 224, the table and the Undo button, which exist only while there are
  annotations. \<^verbatim>\<open>iloc[:-1]\<close> keeps all rows but the last.
\<close>

definition undo_section :: "inputs \<Rightarrow> session \<Rightarrow> outcome \<times> session" where
  "undo_section i s =
     (if annotations s \<noteq> [] then
        if undo_button i then
          if length (annotations s) > 0 then
            (Rerun, s\<lparr>annotations := butlast (annotations s)\<rparr>)
          else (Done, s)
        else (Done, s)
      else (Done, s))"

text \<open>Lines 64 to 226: everything that needs an uploaded image.\<close>

definition main_area :: "inputs \<Rightarrow> session \<Rightarrow> outcome \<times> session" where
  "main_area i s =
     (case uploaded_file i of
        None \<Rightarrow> (Done, s)
      | Some (width, height) \<Rightarrow>
          let s1 = s\<lparr>image_width := width, image_height := height\<rparr>
          in case scale_factors width height (display_width s1) of
               Inl e \<Rightarrow> (Raised e, s1)
             | Inr sc \<Rightarrow>
                 and_then (and_then (image_column i sc s1) (annotation_form i))
                          (undo_section i))"

text \<open>One execution of \<^verbatim>\<open>main\<close>.\<close>

definition main_run :: "inputs \<Rightarrow> session \<Rightarrow> outcome \<times> session" where
  "main_run i s = and_then (sidebar i s) (main_area i)"

text \<open>A session: the script run once for each interaction, in order.\<close>

fun run_session :: "inputs list \<Rightarrow> session \<Rightarrow> session" where
  "run_session [] s = s"
| "run_session (i # is) s = run_session is (snd (main_run i s))"

text \<open>A run in which the user has touched nothing but the upload and the slider.\<close>

definition idle :: "(nat \<times> nat) option \<Rightarrow> nat \<Rightarrow> inputs" where
  "idle img dw =
     \<lparr>uploaded_file = img, slider_display_width = dw, clear_button = False,
      clicked_coords = None, import_error = False, number_input_x = 0,
      number_input_y = 0, set_point_button = False, text_input_label = [],
      submitted = False, cancel = False, undo_button = False, now = []\<rparr>"

subsection \<open>What a run shows\<close>

text \<open>
  What every run writes before it looks at a button: the slider's value (line 44) and,
  with an upload, the image's size (lines 68 and 69).
\<close>

definition refreshed :: "inputs \<Rightarrow> session \<Rightarrow> session" where
  "refreshed i s =
     (case uploaded_file i of
        None \<Rightarrow> s\<lparr>display_width := slider_display_width i\<rparr>
      | Some (width, height) \<Rightarrow>
          s\<lparr>display_width := slider_display_width i, image_width := width,
            image_height := height\<rparr>)"

text \<open>The run has an upload and gets past the scale factors of line 88.\<close>

definition image_shown :: "inputs \<Rightarrow> bool" where
  "image_shown i =
     (case uploaded_file i of
        None \<Rightarrow> False
      | Some (width, height) \<Rightarrow>
          (case scale_factors width height (slider_display_width i) of
             Inl e \<Rightarrow> False
           | Inr sc \<Rightarrow> True))"

text \<open>
  The run reaches line 176 and shows the label form: no rerun by Clear All (line 61)
  or by Set Point (line 165), and a point is pending. A pending point also keeps the
  click of line 137 from being taken.
\<close>

definition form_shown :: "inputs \<Rightarrow> session \<Rightarrow> bool" where
  "form_shown i s \<longleftrightarrow>
     \<not> (annotations s \<noteq> [] \<and> clear_button i) \<and> image_shown i
     \<and> \<not> (import_error i \<and> set_point_button i)
     \<and> awaiting_label s \<and> current_point s \<noteq> None"

text \<open>
  The run reaches line 213, where the table and the Undo button are: no rerun by
  Clear All, by a new point (line 146 or 165) or by the form (line 203 or 208).
\<close>

definition table_reached :: "inputs \<Rightarrow> session \<Rightarrow> bool" where
  "table_reached i s \<longleftrightarrow>
     \<not> (annotations s \<noteq> [] \<and> clear_button i) \<and> image_shown i
     \<and> \<not> (import_error i \<and> set_point_button i)
     \<and> (import_error i \<or> clicked_coords i = None \<or> awaiting_label s)
     \<and> \<not> (awaiting_label s \<and> current_point s \<noteq> None
            \<and> (submitted i \<and> text_input_label i \<noteq> [] \<or> cancel i))"

subsection \<open>Single interactions\<close>

text \<open>
  The widget values of a run in which the user does one thing, on an image of size
  \<open>img\<close> shown at display width \<open>dw\<close>.
\<close>

definition click_at :: "nat \<times> nat \<Rightarrow> nat \<Rightarrow> real \<times> real \<Rightarrow> inputs" where
  "click_at img dw c = (idle (Some img) dw)\<lparr>clicked_coords := Some c\<rparr>"

definition press_add :: "nat \<times> nat \<Rightarrow> nat \<Rightarrow> string \<Rightarrow> string \<Rightarrow> inputs" where
  "press_add img dw l ts =
     (idle (Some img) dw)\<lparr>text_input_label := l, submitted := True, now := ts\<rparr>"

definition press_undo :: "nat \<times> nat \<Rightarrow> nat \<Rightarrow> inputs" where
  "press_undo img dw = (idle (Some img) dw)\<lparr>undo_button := True\<rparr>"

definition press_clear :: "nat \<times> nat \<Rightarrow> nat \<Rightarrow> inputs" where
  "press_clear img dw = (idle (Some img) dw)\<lparr>clear_button := True\<rparr>"

subsection \<open>Points inside the image\<close>

text \<open>A point of the closed rectangle from (0, 0) to (w, h).\<close>

definition in_image :: "nat \<Rightarrow> nat \<Rightarrow> real \<times> real \<Rightarrow> bool" where
  "in_image w h p \<longleftrightarrow> 0 \<le> fst p \<and> fst p \<le> real w \<and> 0 \<le> snd p \<and> snd p \<le> real h"

text \<open>The data model's invariant, on the image size of the session state.\<close>

definition annotations_in_image :: "session \<Rightarrow> bool" where
  "annotations_in_image s \<longleftrightarrow>
     (\<forall>row \<in> set (annotations s). in_image (image_width s) (image_height s) (x row, y row))"

text \<open>
  What the widgets guarantee in a session on one image of size \<open>w\<close> by \<open>h\<close>: the upload,
  if present, is that image; a click delivered by the click component lies within the
  displayed image, which is \<open>display_width\<close> by \<open>display_height\<close>; the number inputs of the
  fallback respect their \<^verbatim>\<open>min_value=0\<close> and \<^verbatim>\<open>max_value\<close> (lines 158 and 160).
\<close>

definition on_image :: "nat \<Rightarrow> nat \<Rightarrow> inputs \<Rightarrow> bool" where
  "on_image w h i \<longleftrightarrow>
     (uploaded_file i = None \<or> uploaded_file i = Some (w, h))
     \<and> (case clicked_coords i of
          None \<Rightarrow> True
        | Some c \<Rightarrow>
            (case display_height_of w h (slider_display_width i) of
               Inl e \<Rightarrow> True
             | Inr display_height \<Rightarrow> in_image (slider_display_width i) display_height c))
     \<and> (import_error i \<longrightarrow>
          0 \<le> number_input_x i \<and> number_input_x i \<le> int w
          \<and> 0 \<le> number_input_y i \<and> number_input_y i \<le> int h)"

text \<open>
  The invariant that the runs preserve: the stored annotations and the pending point
  lie in the image, and once there is either, the session state holds that image's size.
\<close>

definition points_in_image :: "nat \<Rightarrow> nat \<Rightarrow> session \<Rightarrow> bool" where
  "points_in_image w h s \<longleftrightarrow>
     (\<forall>row \<in> set (annotations s). in_image w h (x row, y row))
     \<and> (case current_point s of None \<Rightarrow> True | Some p \<Rightarrow> in_image w h p)"

definition session_on :: "nat \<Rightarrow> nat \<Rightarrow> session \<Rightarrow> bool" where
  "session_on w h s \<longleftrightarrow>
     points_in_image w h s
     \<and> (annotations s \<noteq> [] \<or> current_point s \<noteq> None \<longrightarrow>
          image_width s = w \<and> image_height s = h)"

subsection \<open>Example sessions\<close>

text \<open>
  An 800 by 600 image shown 400 wide. After a first click at (100, 100) the point
  (200, 200) is pending; after labelling it the list has one row.
\<close>

definition point_pending :: session where
  "point_pending =
     \<lparr>annotations = [], image_width = 800, image_height = 600, display_width = 400,
      awaiting_label = True, current_point = Some (200, 200)\<rparr>"

definition door :: annotation where
  "door = \<lparr>x = 200, y = 200, label = ''door'', timestamp = ''2024-05-01 10:00:00''\<rparr>"

definition one_annotation :: session where
  "one_annotation =
     \<lparr>annotations = [door], image_width = 800, image_height = 600, display_width = 400,
      awaiting_label = False, current_point = None\<rparr>"

text \<open>
  Three clicks, each labelled, as the widget values of six runs; the state before the
  third label is given, and the state after it.
\<close>

definition window :: annotation where
  "window = \<lparr>x = 600, y = 100, label = ''window'', timestamp = ''2024-05-01 10:00:07''\<rparr>"

definition floor_mark :: annotation where
  "floor_mark = \<lparr>x = 700, y = 500, label = ''floor'', timestamp = ''2024-05-01 10:00:15''\<rparr>"

definition three_annotations :: "inputs list" where
  "three_annotations =
     [click_at (800, 600) 400 (100, 100),
      press_add (800, 600) 400 ''door'' ''2024-05-01 10:00:00'',
      click_at (800, 600) 400 (300, 50),
      press_add (800, 600) 400 ''window'' ''2024-05-01 10:00:07'',
      click_at (800, 600) 400 (350, 250),
      press_add (800, 600) 400 ''floor'' ''2024-05-01 10:00:15'']"

definition third_pending :: session where
  "third_pending =
     \<lparr>annotations = [door, window], image_width = 800, image_height = 600,
      display_width = 400, awaiting_label = True, current_point = Some (700, 500)\<rparr>"

definition three_stored :: session where
  "three_stored =
     \<lparr>annotations = [door, window, floor_mark], image_width = 800, image_height = 600,
      display_width = 400, awaiting_label = False, current_point = None\<rparr>"

section \<open>The coordinate mapper\<close>

lemma and_then_Done: "and_then (Done, s) f = f s"
  by (simp add: and_then_def)

lemma and_then_Rerun: "and_then (Rerun, s) f = (Rerun, s)"
  by (simp add: and_then_def)

lemma and_then_Raised: "and_then (Raised e, s) f = (Raised e, s)"
  by (simp add: and_then_def)

text \<open>On naturals, the truncated product is an integer division.\<close>

lemma display_height_of_div:
  assumes "0 < w"
  shows "display_height_of w h dw = Inr ((dw * h) div w)"
proof -
  have "real dw * (real h / real w) = real (dw * h) / real w"
    by simp
  then have "\<lfloor>real dw * (real h / real w)\<rfloor> = int ((dw * h) div w)"
    by (simp only: floor_divide_of_nat_eq)
  then show ?thesis
    using assms by (simp add: display_height_of_def)
qed

text \<open>
  The scale factors exist exactly when the image and the display width are not empty
  and the displayed image is at least one pixel high.
\<close>

lemma scale_factors_defined:
  assumes "0 < w" and "0 < dw" and "w \<le> dw * h"
  shows "scale_factors w h dw = Inr (real w / real dw, real h / real ((dw * h) div w))"
proof -
  have "0 < (dw * h) div w"
    using assms by (simp add: div_greater_zero_iff)
  then show ?thesis
    using assms by (simp add: scale_factors_def display_height_of_div)
qed

lemma scale_factors_raises:
  assumes "w = 0 \<or> dw = 0 \<or> dw * h < w"
  shows "scale_factors w h dw = Inl ZeroDivisionError"
proof (cases "w = 0")
  case True
  then show ?thesis by (simp add: scale_factors_def display_height_of_def)
next
  case False
  then have "dw = 0 \<or> (dw * h) div w = 0"
    using assms by auto
  then show ?thesis
    using False by (auto simp add: scale_factors_def display_height_of_div)
qed

lemma scale_factors_InrD:
  assumes "scale_factors w h dw = Inr sc"
  shows "0 < w \<and> 0 < dw \<and> w \<le> dw * h"
  using assms scale_factors_raises [of w dw h]
  by (cases "w = 0 \<or> dw = 0 \<or> dw * h < w") auto

lemma scale_factors_positive:
  assumes "scale_factors w h dw = Inr sc"
  shows "0 < fst sc \<and> 0 < snd sc"
proof -
  have ok: "0 < w \<and> 0 < dw \<and> w \<le> dw * h"
    using assms by (rule scale_factors_InrD)
  then have "0 < h" by (cases h) auto
  with ok assms show ?thesis
    by (auto simp add: scale_factors_defined div_greater_zero_iff)
qed

text \<open>With non-zero scale factors the two maps are inverse to each other and linear.\<close>

lemma to_display_to_original:
  assumes "fst sc \<noteq> 0" and "snd sc \<noteq> 0"
  shows "to_display sc (to_original sc c) = c"
  using assms by (simp add: to_display_def to_original_def)

lemma to_original_to_display:
  assumes "fst sc \<noteq> 0" and "snd sc \<noteq> 0"
  shows "to_original sc (to_display sc p) = p"
  using assms by (simp add: to_display_def to_original_def)

lemma to_original_linear:
  "to_original sc (a * fst c + fst d, a * snd c + snd d) =
     (a * fst (to_original sc c) + fst (to_original sc d),
      a * snd (to_original sc c) + snd (to_original sc d))"
  by (simp add: to_original_def algebra_simps)

text \<open>Whenever the script gets its scale factors, the mapper and its inverse undo each other.\<close>

lemma mapper_round_trip:
  assumes "scale_factors w h dw = Inr sc"
  shows "to_display sc (to_original sc c) = c" and "to_original sc (to_display sc p) = p"
  using scale_factors_positive [OF assms]
  by (simp_all add: to_display_to_original to_original_to_display)

text \<open>Clicks stored at some scale are drawn, at that scale, where they were made.\<close>

lemma drawn_points_of_clicks:
  assumes "fst sc \<noteq> 0" and "snd sc \<noteq> 0"
  shows "drawn_points sc
           (map (\<lambda>c. \<lparr>x = fst (to_original sc c), y = snd (to_original sc c),
                       label = l, timestamp = ts\<rparr>) cs) = cs"
  using assms by (induction cs) (simp_all add: drawn_points_def to_display_def to_original_def)

lemma display_height_800_600_400: "display_height_of 800 600 400 = Inr 300"
  by (simp add: display_height_of_def)

lemma scale_800_600_400: "scale_factors 800 600 400 = Inr (2, 2)"
  by (simp add: scale_factors_def display_height_800_600_400)

text \<open>
  C1. The specification gives the mapper scale factors and an inverse for every uploaded
  image and every display width. An image more than \<open>display_width\<close> times wider than
  high is displayed zero pixels high: for a 401 by 1 image at display width 400 the
  script computes \<open>display_height = 0\<close> and the run ends in \<^verbatim>\<open>ZeroDivisionError\<close>, before
  any click is mapped or any annotation drawn.
\<close>

theorem wide_image_has_no_scale_factors:
  "display_height_of 401 1 400 = Inr 0
   \<and> scale_factors 401 1 400 = Inl ZeroDivisionError
   \<and> main_run (idle (Some (401, 1)) 400) init_state
       = (Raised ZeroDivisionError,
          init_state\<lparr>display_width := 400, image_width := 401, image_height := 1\<rparr>)"
  by (simp add: main_run_def sidebar_def init_state_def idle_def and_then_def
      main_area_def scale_factors_def display_height_of_def)

text \<open>
  C2, as the specification states it: for an 800 by 600 image at display width 400 the
  scale factors are 2 and 1.5, and a click at (100, 100) becomes (200, 150). The script
  computes neither.
\<close>

theorem example_800_600_counterexample:
  "scale_factors 800 600 400 \<noteq> Inr (2, 3 / 2)
   \<and> current_point (snd (main_run ((idle (Some (800, 600)) 400)
                                      \<lparr>clicked_coords := Some (100, 100)\<rparr>) init_state))
       \<noteq> Some (200, 150)"
  by (simp add: main_run_def sidebar_def init_state_def idle_def and_then_def
      main_area_def scale_800_600_400 image_column_def to_original_def)

text \<open>
  C2, amended: the displayed image keeps the aspect ratio, so it is 400 by 300, both
  scale factors are 2, and the click at (100, 100) becomes the pending point (200, 200).
\<close>

theorem example_800_600:
  "display_height_of 800 600 400 = Inr 300
   \<and> scale_factors 800 600 400 = Inr (2, 2)
   \<and> main_run ((idle (Some (800, 600)) 400)\<lparr>clicked_coords := Some (100, 100)\<rparr>) init_state
       = (Rerun, \<lparr>annotations = [], image_width = 800, image_height = 600,
                  display_width = 400, awaiting_label = True,
                  current_point = Some (200, 200)\<rparr>)"
  by (simp add: main_run_def sidebar_def init_state_def idle_def and_then_def
      main_area_def scale_800_600_400 display_height_800_600_400 image_column_def
      to_original_def)

section \<open>Getting to the form and to the table\<close>

lemma sidebar_through:
  assumes "\<not> (annotations s \<noteq> [] \<and> clear_button i)"
  shows "sidebar i s = (Done, s\<lparr>display_width := slider_display_width i\<rparr>)"
  using assms by (auto simp add: sidebar_def Let_def)

lemma sidebar_clears:
  assumes "annotations s \<noteq> []" and "clear_button i"
  shows "sidebar i s = (Rerun, s\<lparr>display_width := slider_display_width i, annotations := [],
                                 awaiting_label := False, current_point := None\<rparr>)"
  using assms by (simp add: sidebar_def Let_def)

lemma image_shownD:
  assumes "image_shown i"
  obtains w h sc where "uploaded_file i = Some (w, h)"
    and "scale_factors w h (slider_display_width i) = Inr sc"
proof (cases "uploaded_file i")
  case None
  with assms show ?thesis by (simp add: image_shown_def)
next
  case (Some img)
  obtain w h where img: "img = (w, h)" by (cases img)
  show ?thesis
  proof (cases "scale_factors w h (slider_display_width i)")
    case (Inl e)
    with assms Some img show ?thesis by (simp add: image_shown_def)
  next
    case (Inr sc)
    with Some img that show ?thesis by simp
  qed
qed

lemma image_column_Done:
  assumes "fst (image_column i sc s) = Done"
  shows "image_column i sc s = (Done, s)"
  using assms by (auto simp add: image_column_def split: option.splits if_splits)

lemma annotation_form_Done:
  assumes "fst (annotation_form i s) = Done"
  shows "annotation_form i s = (Done, s)"
  using assms by (auto simp add: annotation_form_def Let_def split: option.splits if_splits)

lemma undo_section_empty:
  assumes "annotations s = []"
  shows "undo_section i s = (Done, s)"
  using assms by (simp add: undo_section_def)

text \<open>A run that shows the form is the form and then the table, on the refreshed state.\<close>

lemma main_run_form:
  assumes "form_shown i s"
  shows "main_run i s = and_then (annotation_form i (refreshed i s)) (undo_section i)"
proof -
  from assms have a: "\<not> (annotations s \<noteq> [] \<and> clear_button i)" and b: "image_shown i"
    and c: "\<not> (import_error i \<and> set_point_button i)" and d: "awaiting_label s"
    by (simp_all add: form_shown_def)
  from b obtain w h sc where up: "uploaded_file i = Some (w, h)"
    and sc: "scale_factors w h (slider_display_width i) = Inr sc"
    by (rule image_shownD)
  have "image_column i sc (refreshed i s) = (Done, refreshed i s)"
    using c d up by (auto simp add: image_column_def refreshed_def split: option.splits)
  then show ?thesis
    using a up sc
    by (simp add: main_run_def sidebar_through and_then_Done main_area_def refreshed_def)
qed

text \<open>A run that reaches the table is the table's section on the refreshed state.\<close>

lemma main_run_table:
  assumes "table_reached i s"
  shows "main_run i s = undo_section i (refreshed i s)"
proof -
  from assms have a: "\<not> (annotations s \<noteq> [] \<and> clear_button i)" and b: "image_shown i"
    and c: "\<not> (import_error i \<and> set_point_button i)"
    and d: "import_error i \<or> clicked_coords i = None \<or> awaiting_label s"
    and e: "\<not> (awaiting_label s \<and> current_point s \<noteq> None
            \<and> (submitted i \<and> text_input_label i \<noteq> [] \<or> cancel i))"
    by (simp_all add: table_reached_def)
  from b obtain w h sc where up: "uploaded_file i = Some (w, h)"
    and sc: "scale_factors w h (slider_display_width i) = Inr sc"
    by (rule image_shownD)
  have 1: "image_column i sc (refreshed i s) = (Done, refreshed i s)"
    using c d up by (auto simp add: image_column_def refreshed_def split: option.splits)
  have 2: "annotation_form i (refreshed i s) = (Done, refreshed i s)"
    using e up by (auto simp add: annotation_form_def refreshed_def split: option.splits)
  show ?thesis
    using a up sc 1 2
    by (simp add: main_run_def sidebar_through and_then_Done main_area_def refreshed_def)
qed

text \<open>The only exception of the model is the one of the scale factors.\<close>

lemma main_run_not_Raised:
  assumes "uploaded_file i = None \<or> image_shown i"
  shows "fst (main_run i s) \<noteq> Raised e"
proof -
  have sb: "fst (sidebar i s) \<noteq> Raised e"
    by (simp add: sidebar_def Let_def)
  have ic: "fst (image_column i sc u) \<noteq> Raised e" for sc u
    by (simp add: image_column_def split: option.splits)
  have af: "fst (annotation_form i u) \<noteq> Raised e" for u
    by (simp add: annotation_form_def Let_def split: option.splits)
  have us: "fst (undo_section i u) \<noteq> Raised e" for u
    by (simp add: undo_section_def)
  have seq: "fst (and_then r f) \<noteq> Raised e"
    if "fst r \<noteq> Raised e" and "\<And>u. fst (f u) \<noteq> Raised e" for r f
    using that by (cases "fst r") (simp_all add: and_then_def)
  have ma: "fst (main_area i u) \<noteq> Raised e"
    if dw: "display_width u = slider_display_width i" for u
  proof (cases "uploaded_file i")
    case None
    then show ?thesis by (simp add: main_area_def)
  next
    case (Some img)
    with assms have "image_shown i" by simp
    then obtain w h sc where up: "uploaded_file i = Some (w, h)"
      and sc: "scale_factors w h (slider_display_width i) = Inr sc"
      by (rule image_shownD)
    have "fst (and_then (and_then (image_column i sc v) (annotation_form i)) (undo_section i))
            \<noteq> Raised e" for v
      by (intro seq ic af us)
    then show ?thesis
      using up sc dw by (simp add: main_area_def)
  qed
  have dw: "display_width (snd (sidebar i s)) = slider_display_width i"
    by (simp add: sidebar_def Let_def)
  show ?thesis
  proof (cases "fst (sidebar i s)")
    case Done
    then show ?thesis using ma [OF dw] by (simp add: main_run_def and_then_def)
  next
    case Rerun
    then show ?thesis by (simp add: main_run_def and_then_def)
  next
    case (Raised e')
    then show ?thesis using sb by (simp add: sidebar_def Let_def split: if_splits)
  qed
qed

text \<open>The example states are reached from the initial state.\<close>

lemma image_shown_800_600:
  "image_shown (click_at (800, 600) 400 c)"
  "image_shown (press_add (800, 600) 400 l ts)"
  "image_shown (press_undo (800, 600) 400)"
  "image_shown (press_clear (800, 600) 400)"
  by (simp_all add: image_shown_def click_at_def press_add_def press_undo_def press_clear_def
      idle_def scale_800_600_400)

lemma first_click:
  "main_run (click_at (800, 600) 400 (100, 100)) init_state = (Rerun, point_pending)"
  by (simp add: main_run_def sidebar_def init_state_def click_at_def idle_def and_then_def
      main_area_def scale_800_600_400 image_column_def to_original_def point_pending_def)

lemma first_label:
  "main_run (press_add (800, 600) 400 ''door'' ''2024-05-01 10:00:00'') point_pending
     = (Rerun, one_annotation)"
  by (simp add: main_run_def sidebar_def press_add_def idle_def and_then_def main_area_def
      scale_800_600_400 image_column_def annotation_form_def point_pending_def
      one_annotation_def door_def)

section \<open>The label form\<close>

text \<open>
  C6. In a run that shows the label form for a pending point, pressing Add Annotation
  with an empty label (and not Undo in the same run) adds no annotation, whatever the
  list holds, and the run raises no exception.
\<close>

theorem empty_label_ignored:
  assumes "form_shown i s" and "submitted i" and "text_input_label i = []"
    and "\<not> undo_button i"
  shows "annotations (snd (main_run i s)) = annotations s
         \<and> fst (main_run i s) \<noteq> Raised e"
proof -
  have "undo_section i t = (Done, t)" for t
    using assms(4) by (simp add: undo_section_def)
  then show ?thesis
    using assms
    by (auto simp add: main_run_form annotation_form_def and_then_def refreshed_def
        form_shown_def image_shown_def split: option.splits)
qed

theorem empty_label_ignored_witness:
  "form_shown (press_add (800, 600) 400 [] []) point_pending
   \<and> submitted (press_add (800, 600) 400 [] [])
   \<and> text_input_label (press_add (800, 600) 400 [] []) = []
   \<and> \<not> undo_button (press_add (800, 600) 400 [] [])
   \<and> annotations (snd (main_run (press_add (800, 600) 400 [] []) point_pending)) = []
   \<and> fst (main_run (press_add (800, 600) 400 [] []) point_pending) \<noteq> Raised ZeroDivisionError"
proof -
  let ?i = "press_add (800, 600) 400 [] []"
  have 1: "form_shown ?i point_pending"
    by (simp add: form_shown_def image_shown_800_600) (simp add: point_pending_def press_add_def idle_def)
  have 2: "submitted ?i" and 3: "text_input_label ?i = []" and 4: "\<not> undo_button ?i"
    by (simp_all add: press_add_def idle_def)
  show ?thesis
    using empty_label_ignored [OF 1 2 3 4, of ZeroDivisionError] 1 2 3 4
    by (simp add: point_pending_def)
qed

lemma undo_section_pending:
  "current_point (snd (undo_section i t)) = current_point t
   \<and> awaiting_label (snd (undo_section i t)) = awaiting_label t"
  by (simp add: undo_section_def)

text \<open>
  C10. In a run that shows the label form, a submission with an empty label (Cancel
  not pressed) leaves \<open>current_point\<close> and \<open>awaiting_label\<close> as they were, so the point
  stays pending; and the run ends with \<open>current_point = None\<close> and \<open>awaiting_label = False\<close>
  exactly when Add Annotation was pressed with a non-empty label or Cancel was pressed.
\<close>

theorem empty_label_keeps_point_pending:
  assumes "form_shown i s"
  shows "(submitted i \<and> text_input_label i = [] \<and> \<not> cancel i \<longrightarrow>
            current_point (snd (main_run i s)) = current_point s
            \<and> awaiting_label (snd (main_run i s)) = awaiting_label s)
         \<and> (current_point (snd (main_run i s)) = None \<and> \<not> awaiting_label (snd (main_run i s))
              \<longleftrightarrow> submitted i \<and> text_input_label i \<noteq> [] \<or> cancel i)"
proof -
  from assms obtain p where p: "current_point s = Some p" and a: "awaiting_label s"
    by (auto simp add: form_shown_def)
  have r: "current_point (refreshed i s) = Some p" "awaiting_label (refreshed i s)"
    using p a by (simp_all add: refreshed_def split: option.splits)
  show ?thesis
  proof (cases "submitted i \<and> text_input_label i \<noteq> [] \<or> cancel i")
    case True
    then have "fst (annotation_form i (refreshed i s)) = Rerun
      \<and> current_point (snd (annotation_form i (refreshed i s))) = None
      \<and> \<not> awaiting_label (snd (annotation_form i (refreshed i s)))"
      using r by (auto simp add: annotation_form_def Let_def)
    then show ?thesis
      using True by (auto simp add: main_run_form [OF assms] and_then_def)
  next
    case False
    then have "annotation_form i (refreshed i s) = (Done, refreshed i s)"
      using r by (auto simp add: annotation_form_def)
    then show ?thesis
      using False r p a
      by (simp add: main_run_form [OF assms] and_then_Done undo_section_pending)
  qed
qed

theorem empty_label_keeps_point_pending_witness:
  "form_shown (press_add (800, 600) 400 [] []) point_pending
   \<and> current_point (snd (main_run (press_add (800, 600) 400 [] []) point_pending))
       = Some (200, 200)
   \<and> awaiting_label (snd (main_run (press_add (800, 600) 400 [] []) point_pending))
   \<and> form_shown (press_add (800, 600) 400 ''door'' []) point_pending
   \<and> current_point (snd (main_run (press_add (800, 600) 400 ''door'' []) point_pending)) = None
   \<and> \<not> awaiting_label (snd (main_run (press_add (800, 600) 400 ''door'' []) point_pending))"
proof -
  let ?i = "press_add (800, 600) 400 [] []" and ?j = "press_add (800, 600) 400 ''door'' []"
  have 1: "form_shown ?i point_pending" and 2: "form_shown ?j point_pending"
    by (simp_all add: form_shown_def image_shown_800_600)
      (simp_all add: point_pending_def press_add_def idle_def)
  have i: "submitted ?i \<and> text_input_label ?i = [] \<and> \<not> cancel ?i"
    and j: "submitted ?j \<and> text_input_label ?j \<noteq> []"
    by (simp_all add: press_add_def idle_def)
  have "current_point point_pending = Some (200, 200) \<and> awaiting_label point_pending"
    by (simp add: point_pending_def)
  then show ?thesis
    using empty_label_keeps_point_pending [OF 1] empty_label_keeps_point_pending [OF 2] 1 2 i j
    by simp
qed

section \<open>Undo and Clear All\<close>

lemma three_annotations_runs:
  "run_session (butlast three_annotations) init_state = third_pending"
  "main_run (press_add (800, 600) 400 ''floor'' ''2024-05-01 10:00:15'') third_pending
     = (Rerun, three_stored)"
  "run_session three_annotations init_state = three_stored"
  by (simp_all add: three_annotations_def main_run_def sidebar_def init_state_def click_at_def
      press_add_def idle_def and_then_def main_area_def scale_800_600_400 image_column_def
      annotation_form_def to_original_def third_pending_def three_stored_def door_def
      window_def floor_mark_def)

text \<open>
  C3. A run that shows the label form and in which Add Annotation is pressed with a
  non-empty label appends one row. If Undo is then pressed, in a run that reaches the
  table, on a state \<open>t\<close> whose list is still the one that run left -- the state right
  after it, or a later one -- the list is again exactly the list from before the
  addition.
\<close>

theorem add_then_undo_restores:
  assumes "form_shown i1 s" and "submitted i1" and "text_input_label i1 \<noteq> []"
    and "annotations t = annotations (snd (main_run i1 s))"
    and "table_reached i2 t" and "undo_button i2"
  shows "annotations (snd (main_run i2 t)) = annotations s"
proof -
  from assms(1) obtain p where p: "current_point s = Some p" and a: "awaiting_label s"
    by (auto simp add: form_shown_def)
  have r: "current_point (refreshed i1 s) = Some p" "awaiting_label (refreshed i1 s)"
    "annotations (refreshed i1 s) = annotations s"
    using p a by (simp_all add: refreshed_def split: option.splits)
  let ?row = "\<lparr>x = fst p, y = snd p, label = text_input_label i1, timestamp = now i1\<rparr>"
  have "fst (annotation_form i1 (refreshed i1 s)) = Rerun
    \<and> annotations (snd (annotation_form i1 (refreshed i1 s))) = annotations s @ [?row]"
    using r assms(2,3) by (auto simp add: annotation_form_def Let_def)
  then have "annotations (snd (main_run i1 s)) = annotations s @ [?row]"
    by (simp add: main_run_form [OF assms(1)] and_then_def)
  then have t: "annotations t = annotations s @ [?row]"
    using assms(4) by simp
  then have "annotations (refreshed i2 t) = annotations s @ [?row]"
    by (simp add: refreshed_def split: option.splits)
  then have "annotations (snd (undo_section i2 (refreshed i2 t))) = annotations s"
    using assms(6) by (simp add: undo_section_def)
  then show ?thesis
    by (simp add: main_run_table [OF assms(5)])
qed

text \<open>Three annotations added, Undo pressed once: the first two remain.\<close>

theorem add_then_undo_restores_witness:
  "run_session three_annotations init_state = three_stored
   \<and> annotations three_stored = [door, window, floor_mark]
   \<and> form_shown (press_add (800, 600) 400 ''floor'' ''2024-05-01 10:00:15'') third_pending
   \<and> table_reached (press_undo (800, 600) 400) three_stored
   \<and> undo_button (press_undo (800, 600) 400)
   \<and> annotations (snd (main_run (press_undo (800, 600) 400) three_stored)) = [door, window]"
proof -
  let ?add = "press_add (800, 600) 400 ''floor'' ''2024-05-01 10:00:15''"
  let ?undo = "press_undo (800, 600) 400"
  have 1: "form_shown ?add third_pending"
    by (simp add: form_shown_def image_shown_800_600)
      (simp add: third_pending_def press_add_def idle_def)
  have 2: "submitted ?add" and 3: "text_input_label ?add \<noteq> []"
    by (simp_all add: press_add_def idle_def)
  have 4: "annotations three_stored = annotations (snd (main_run ?add third_pending))"
    by (simp add: three_annotations_runs)
  have 5: "table_reached ?undo three_stored"
    by (simp add: table_reached_def image_shown_800_600)
      (simp add: three_stored_def press_undo_def idle_def)
  have 6: "undo_button ?undo"
    by (simp add: press_undo_def idle_def)
  have "annotations third_pending = [door, window]"
    and "annotations three_stored = [door, window, floor_mark]"
    by (simp_all add: third_pending_def three_stored_def)
  then show ?thesis
    using add_then_undo_restores [OF 1 2 3 4 5 6] 1 5 6
    by (simp add: three_annotations_runs)
qed

lemma image_column_annotations:
  "annotations (snd (image_column i sc s)) = annotations s"
  by (simp add: image_column_def split: option.splits)

lemma annotation_form_no_submit:
  assumes "\<not> submitted i"
  shows "annotations (snd (annotation_form i s)) = annotations s"
  using assms by (simp add: annotation_form_def split: option.splits)

text \<open>Without the form's Add button, an empty list stays empty.\<close>

lemma main_area_empty_no_submit:
  assumes "annotations s = []" and "\<not> submitted i"
  shows "annotations (snd (main_area i s)) = []"
proof (cases "uploaded_file i")
  case None
  with assms show ?thesis by (simp add: main_area_def)
next
  case (Some img)
  obtain w h where img: "img = (w, h)" by (cases img)
  let ?s1 = "s\<lparr>image_width := w, image_height := h\<rparr>"
  show ?thesis
  proof (cases "scale_factors w h (display_width ?s1)")
    case (Inl e)
    with Some img assms show ?thesis by (simp add: main_area_def)
  next
    case (Inr sc)
    have 1: "annotations (snd (image_column i sc ?s1)) = []"
      using assms by (simp add: image_column_annotations)
    have 2: "annotations (snd (annotation_form i u)) = annotations u" for u
      using assms(2) by (rule annotation_form_no_submit)
    have "annotations (snd (and_then (and_then (image_column i sc ?s1) (annotation_form i))
                                      (undo_section i))) = []"
    proof (cases "fst (image_column i sc ?s1) = Done")
      case False
      then show ?thesis using 1 by (auto simp add: and_then_def split: outcome.splits)
    next
      case True
      then have ic: "image_column i sc ?s1 = (Done, ?s1)" by (rule image_column_Done)
      show ?thesis
      proof (cases "fst (annotation_form i ?s1) = Done")
        case False
        then show ?thesis
          using 2 [of ?s1] assms(1) ic by (auto simp add: and_then_def split: outcome.splits)
      next
        case True
        then have "annotation_form i ?s1 = (Done, ?s1)" by (rule annotation_form_Done)
        then show ?thesis
          using ic assms(1) by (simp add: and_then_Done undo_section_empty)
      qed
    qed
    with Some img Inr show ?thesis by (simp add: main_area_def)
  qed
qed

text \<open>
  C7. A run in which Clear All is pressed leaves the annotation list empty, whatever it
  held. With an empty list the button is not shown and the run goes on to the form:
  for that case the statement needs that the form's Add button is not pressed in the
  same run.
\<close>

theorem clear_empties_list:
  assumes "clear_button i" and "annotations s = [] \<longrightarrow> \<not> submitted i"
  shows "annotations (snd (main_run i s)) = []"
proof (cases "annotations s = []")
  case True
  then have "sidebar i s = (Done, s\<lparr>display_width := slider_display_width i\<rparr>)"
    by (simp add: sidebar_through)
  then show ?thesis
    using True assms(2) by (simp add: main_run_def and_then_Done main_area_empty_no_submit)
next
  case False
  then show ?thesis
    using assms(1) by (simp add: main_run_def sidebar_clears and_then_Rerun)
qed

theorem clear_empties_list_witness:
  "clear_button (press_clear (800, 600) 400)
   \<and> \<not> submitted (press_clear (800, 600) 400)
   \<and> length (annotations three_stored) = 3
   \<and> annotations (snd (main_run (press_clear (800, 600) 400) three_stored)) = []"
proof -
  have 1: "clear_button (press_clear (800, 600) 400)"
    and 2: "\<not> submitted (press_clear (800, 600) 400)"
    by (simp_all add: press_clear_def idle_def)
  from 2 have 3: "annotations three_stored = [] \<longrightarrow> \<not> submitted (press_clear (800, 600) 400)"
    by simp
  show ?thesis
    using clear_empties_list [OF 1 3] 1 2 by (simp add: three_stored_def)
qed

lemma main_area_empty_buttons:
  assumes "annotations s = []"
  shows "main_area (i\<lparr>clear_button := False, undo_button := False\<rparr>) s = main_area i s"
proof -
  let ?j = "i\<lparr>clear_button := False, undo_button := False\<rparr>"
  have ic: "image_column ?j sc u = image_column i sc u" for sc u
    by (simp add: image_column_def split: option.splits)
  have af: "annotation_form ?j = annotation_form i"
    by (rule ext) (auto simp add: annotation_form_def Let_def split: option.splits)
  have "and_then (and_then (image_column i sc u) (annotation_form i)) (undo_section ?j)
        = and_then (and_then (image_column i sc u) (annotation_form i)) (undo_section i)"
    if u: "annotations u = []" for sc u
  proof (cases "fst (image_column i sc u) = Done")
    case False
    then show ?thesis by (auto simp add: and_then_def split: outcome.splits)
  next
    case True
    then have 1: "image_column i sc u = (Done, u)" by (rule image_column_Done)
    show ?thesis
    proof (cases "fst (annotation_form i u) = Done")
      case False
      then show ?thesis using 1 by (auto simp add: and_then_def split: outcome.splits)
    next
      case True
      then have "annotation_form i u = (Done, u)" by (rule annotation_form_Done)
      then show ?thesis using 1 u by (simp add: and_then_Done undo_section_empty)
    qed
  qed
  then show ?thesis
    using assms by (simp add: main_area_def Let_def ic af split: option.splits sum.splits)
qed

text \<open>
  C8. With an empty annotation list, Undo and Clear All do nothing: the run is the run
  with neither button pressed, whatever the two buttons' values; the list stays empty
  (unless the form's Add button is pressed in the same run); and no exception is raised
  (in a run without upload, or whose image can be shown).
\<close>

theorem undo_clear_on_empty_noop:
  assumes "annotations s = []"
  shows "main_run i s = main_run (i\<lparr>clear_button := False, undo_button := False\<rparr>) s
         \<and> (\<not> submitted i \<longrightarrow> annotations (snd (main_run i s)) = [])
         \<and> (uploaded_file i = None \<or> image_shown i \<longrightarrow> fst (main_run i s) \<noteq> Raised e)"
proof -
  have sb: "sidebar j s = (Done, s\<lparr>display_width := slider_display_width j\<rparr>)" for j
    using assms by (simp add: sidebar_through)
  have "main_run i s = main_run (i\<lparr>clear_button := False, undo_button := False\<rparr>) s"
    using assms by (simp add: main_run_def sb and_then_Done main_area_empty_buttons)
  moreover have "annotations (snd (main_run i s)) = []" if "\<not> submitted i"
    using assms that by (simp add: main_run_def sb and_then_Done main_area_empty_no_submit)
  ultimately show ?thesis
    using main_run_not_Raised [of i s e] by simp
qed

text \<open>Undo and Clear All pressed on the initial state: the state of an idle run.\<close>

theorem undo_clear_on_empty_noop_witness:
  "annotations init_state = []
   \<and> main_run (press_undo (800, 600) 400) init_state = main_run (idle (Some (800, 600)) 400) init_state
   \<and> main_run (press_clear (800, 600) 400) init_state = main_run (idle (Some (800, 600)) 400) init_state
   \<and> \<not> submitted (press_undo (800, 600) 400) \<and> image_shown (press_undo (800, 600) 400)
   \<and> annotations (snd (main_run (press_undo (800, 600) 400) init_state)) = []
   \<and> fst (main_run (press_undo (800, 600) 400) init_state) \<noteq> Raised ZeroDivisionError
   \<and> \<not> submitted (press_clear (800, 600) 400) \<and> image_shown (press_clear (800, 600) 400)
   \<and> annotations (snd (main_run (press_clear (800, 600) 400) init_state)) = []
   \<and> fst (main_run (press_clear (800, 600) 400) init_state) \<noteq> Raised ZeroDivisionError"
proof -
  have 0: "annotations init_state = []"
    by (simp add: init_state_def)
  have u: "(press_undo (800, 600) 400)\<lparr>clear_button := False, undo_button := False\<rparr>
             = idle (Some (800, 600)) 400"
    and c: "(press_clear (800, 600) 400)\<lparr>clear_button := False, undo_button := False\<rparr>
             = idle (Some (800, 600)) 400"
    by (simp_all add: press_undo_def press_clear_def idle_def)
  have s: "\<not> submitted (press_undo (800, 600) 400)" "\<not> submitted (press_clear (800, 600) 400)"
    by (simp_all add: press_undo_def press_clear_def idle_def)
  have idle_run: "main_run (idle (Some (800, 600)) 400) init_state
      = (Done, init_state\<lparr>display_width := 400, image_width := 800, image_height := 600\<rparr>)"
    by (simp add: main_run_def sidebar_def init_state_def idle_def and_then_def main_area_def
        scale_800_600_400 image_column_def annotation_form_def undo_section_def)
  show ?thesis
    using undo_clear_on_empty_noop [OF 0, of "press_undo (800, 600) 400" ZeroDivisionError]
      undo_clear_on_empty_noop [OF 0, of "press_clear (800, 600) 400" ZeroDivisionError]
      0 s image_shown_800_600
    by (simp add: u c idle_run)
qed

text \<open>
  C9. Clear All, pressed while the list has annotations (the button is shown only
  then), resets the pending point with the list: the run ends in a rerun with the list
  empty, \<open>current_point = None\<close> and \<open>awaiting_label = False\<close>, and on that state the label
  form is not shown, whatever the widgets hold.
\<close>

theorem clear_discards_pending_point:
  assumes "clear_button i" and "annotations s \<noteq> []"
  shows "main_run i s = (Rerun, s\<lparr>display_width := slider_display_width i, annotations := [],
                                  awaiting_label := False, current_point := None\<rparr>)
         \<and> annotation_form i' (snd (main_run i s)) = (Done, snd (main_run i s))
         \<and> \<not> form_shown i' (snd (main_run i s))"
  using assms
  by (simp add: main_run_def sidebar_clears and_then_Rerun annotation_form_def form_shown_def)

text \<open>Clear All pressed while a third point awaits its label.\<close>

theorem clear_discards_pending_point_witness:
  "clear_button (press_clear (800, 600) 400) \<and> annotations third_pending \<noteq> []
   \<and> current_point third_pending = Some (700, 500) \<and> awaiting_label third_pending
   \<and> main_run (press_clear (800, 600) 400) third_pending
       = (Rerun, \<lparr>annotations = [], image_width = 800, image_height = 600,
                  display_width = 400, awaiting_label = False, current_point = None\<rparr>)"
proof -
  have 1: "clear_button (press_clear (800, 600) 400)"
    by (simp add: press_clear_def idle_def)
  have 2: "annotations third_pending \<noteq> []"
    by (simp add: third_pending_def)
  show ?thesis
    using clear_discards_pending_point [OF 1 2] 1 2
    by (simp add: third_pending_def press_clear_def idle_def)
qed

section \<open>Annotations stay inside the image\<close>

text \<open>A click within the displayed image is mapped into the original image.\<close>

lemma to_original_in_image:
  assumes sc: "scale_factors w h dw = Inr sc"
    and dh: "display_height_of w h dw = Inr dh"
    and c: "in_image dw dh c"
  shows "in_image w h (to_original sc c)"
proof -
  from sc dh have pos: "0 < dw" "0 < dh" and sc_eq: "sc = (real w / real dw, real h / real dh)"
    by (auto simp add: scale_factors_def split: if_splits)
  from c have cx: "0 \<le> fst c" "fst c \<le> real dw" and cy: "0 \<le> snd c" "snd c \<le> real dh"
    by (simp_all add: in_image_def)
  have "fst c * (real w / real dw) \<le> real dw * (real w / real dw)"
    using cx by (intro mult_right_mono) simp_all
  then have x_le: "fst c * (real w / real dw) \<le> real w"
    using pos by simp
  have "snd c * (real h / real dh) \<le> real dh * (real h / real dh)"
    using cy by (intro mult_right_mono) simp_all
  then have y_le: "snd c * (real h / real dh) \<le> real h"
    using pos by simp
  show ?thesis
    using cx cy x_le y_le by (simp add: in_image_def to_original_def sc_eq)
qed

text \<open>Each section of the script keeps the stored and the pending points in the image.\<close>

lemma image_column_points:
  assumes "points_in_image w h s" and "on_image w h i"
    and "scale_factors w h (slider_display_width i) = Inr sc"
  shows "points_in_image w h (snd (image_column i sc s))"
proof (cases "import_error i")
  case True
  with assms(2) have "in_image w h (real_of_int (number_input_x i), real_of_int (number_input_y i))"
    by (simp add: on_image_def in_image_def)
  with assms(1) True show ?thesis
    by (simp add: image_column_def points_in_image_def)
next
  case False
  show ?thesis
  proof (cases "clicked_coords i")
    case None
    with False assms(1) show ?thesis by (simp add: image_column_def)
  next
    case (Some c)
    from assms(3) obtain dh where dh: "display_height_of w h (slider_display_width i) = Inr dh"
      by (auto simp add: scale_factors_def split: sum.splits)
    with assms(2) Some have "in_image (slider_display_width i) dh c"
      by (simp add: on_image_def)
    with assms(3) dh have "in_image w h (to_original sc c)"
      by (rule to_original_in_image)
    with assms(1) False Some show ?thesis
      by (simp add: image_column_def points_in_image_def)
  qed
qed

lemma annotation_form_points:
  assumes "points_in_image w h s"
  shows "points_in_image w h (snd (annotation_form i s))"
  using assms
  by (auto simp add: annotation_form_def Let_def points_in_image_def split: option.splits)

lemma undo_section_points:
  assumes "points_in_image w h s"
  shows "points_in_image w h (snd (undo_section i s))"
  using assms by (auto simp add: undo_section_def points_in_image_def dest: in_set_butlastD)

lemma and_then_preserves:
  assumes "P (snd r)" and "\<And>u. P u \<Longrightarrow> P (snd (f u))"
  shows "P (snd (and_then r f))"
  using assms by (cases "fst r") (simp_all add: and_then_def)

lemma sections_keep_size:
  "image_width (snd (image_column i sc s)) = image_width s"
  "image_height (snd (image_column i sc s)) = image_height s"
  "image_width (snd (annotation_form i s)) = image_width s"
  "image_height (snd (annotation_form i s)) = image_height s"
  "image_width (snd (undo_section i s)) = image_width s"
  "image_height (snd (undo_section i s)) = image_height s"
  by (simp_all add: image_column_def annotation_form_def undo_section_def Let_def
      split: option.splits)

lemma sidebar_session_on:
  assumes "session_on w h s"
  shows "session_on w h (snd (sidebar i s))"
  using assms by (simp add: sidebar_def Let_def session_on_def points_in_image_def)

lemma main_area_session_on:
  assumes inv: "session_on w h s" and ok: "on_image w h i"
    and dw: "display_width s = slider_display_width i"
  shows "session_on w h (snd (main_area i s))"
proof (cases "uploaded_file i")
  case None
  with inv show ?thesis by (simp add: main_area_def)
next
  case (Some img)
  with ok have up: "uploaded_file i = Some (w, h)"
    by (simp add: on_image_def)
  let ?s1 = "s\<lparr>image_width := w, image_height := h\<rparr>"
  let ?P = "\<lambda>u. points_in_image w h u \<and> image_width u = w \<and> image_height u = h"
  have s1: "?P ?s1"
    using inv by (simp add: session_on_def points_in_image_def)
  show ?thesis
  proof (cases "scale_factors w h (slider_display_width i)")
    case (Inl e)
    with up dw s1 show ?thesis by (simp add: main_area_def session_on_def)
  next
    case (Inr sc)
    have "?P (snd (and_then (and_then (image_column i sc ?s1) (annotation_form i))
                            (undo_section i)))"
    proof (intro and_then_preserves [where P = ?P])
      show "?P (snd (image_column i sc ?s1))"
        using s1 ok Inr by (simp add: image_column_points sections_keep_size)
    next
      fix u assume "?P u"
      then show "?P (snd (annotation_form i u))"
        by (simp add: annotation_form_points sections_keep_size)
    next
      fix u assume "?P u"
      then show "?P (snd (undo_section i u))"
        by (simp add: undo_section_points sections_keep_size)
    qed
    with up dw Inr show ?thesis by (simp add: main_area_def session_on_def)
  qed
qed

text \<open>One run, whatever the interaction, preserves the invariant.\<close>

lemma main_run_session_on:
  assumes "session_on w h s" and "on_image w h i"
  shows "session_on w h (snd (main_run i s))"
proof -
  have 1: "session_on w h (snd (sidebar i s))"
    using assms(1) by (rule sidebar_session_on)
  have dw: "display_width (snd (sidebar i s)) = slider_display_width i"
    by (simp add: sidebar_def Let_def)
  show ?thesis
  proof (cases "fst (sidebar i s)")
    case Done
    then show ?thesis
      using main_area_session_on [OF 1 assms(2) dw] by (simp add: main_run_def and_then_def)
  next
    case Rerun
    then show ?thesis using 1 by (simp add: main_run_def and_then_def)
  next
    case (Raised e)
    then show ?thesis using 1 by (simp add: main_run_def and_then_def)
  qed
qed

lemma run_session_session_on:
  assumes "session_on w h s" and "\<forall>i \<in> set is. on_image w h i"
  shows "session_on w h (run_session is s)"
  using assms
proof (induction "is" arbitrary: s)
  case Nil
  then show ?case by simp
next
  case (Cons i "is")
  then show ?case by (simp add: main_run_session_on)
qed

lemma session_on_init: "session_on w h init_state"
  by (simp add: session_on_def points_in_image_def init_state_def)

lemma session_on_annotations_in_image:
  assumes "session_on w h s"
  shows "annotations_in_image s"
proof (cases "annotations s = []")
  case True
  then show ?thesis by (simp add: annotations_in_image_def)
next
  case False
  with assms show ?thesis
    by (simp add: session_on_def points_in_image_def annotations_in_image_def)
qed

text \<open>
  In the model, whose arithmetic is exact, and while the upload stays the same image:
  from the initial state and through any sequence of runs -- clicks, manual points,
  labels, cancels, undos, clears, slider moves -- every stored annotation has \<open>x\<close> in
  \<open>[0, image_width]\<close> and \<open>y\<close> in \<open>[0, image_height]\<close>, provided each click delivered by the
  click component lies within the displayed image and the number inputs respect their
  bounds. The program multiplies doubles: there a click on the right or bottom edge
  can come out beyond the bound by one rounding step, which this lemma does not cover.
\<close>

lemma one_image_session_in_image:
  assumes "\<forall>i \<in> set is. on_image w h i"
  shows "annotations_in_image (run_session is init_state)"
  using session_on_init assms
  by (intro session_on_annotations_in_image run_session_session_on)

lemma three_annotations_in_image:
  "list_all (on_image 800 600) three_annotations
   \<and> annotations (run_session three_annotations init_state) = [door, window, floor_mark]
   \<and> annotations_in_image (run_session three_annotations init_state)"
proof -
  have ok: "\<forall>i \<in> set three_annotations. on_image 800 600 i"
    by (simp add: three_annotations_def on_image_def click_at_def press_add_def idle_def
        display_height_800_600_400 in_image_def)
  show ?thesis
    using one_image_session_in_image [OF ok] ok
    by (simp add: three_annotations_runs three_stored_def list_all_iff)
qed

lemma scale_100_100_400: "scale_factors 100 100 400 = Inr (1 / 4, 1 / 4)"
  by (simp add: scale_factors_def display_height_of_def)

text \<open>
  C4. The specification's invariant: every stored annotation has \<open>x\<close> in \<open>[0, image_width]\<close>
  and \<open>y\<close> in \<open>[0, image_height]\<close>. The script does not keep it when the upload is replaced.
  On an 800 by 600 image shown 400 wide, a click at (100, 100) labelled ``door'' is
  stored at (200, 200), inside the image. One more run, with a 100 by 100 image
  uploaded and nothing pressed, sets \<open>image_width\<close> and \<open>image_height\<close> to 100 (lines 68 and
  69) and leaves the list as it is: the stored annotation is now outside the image.
\<close>

theorem smaller_upload_leaves_annotation_outside:
  "run_session
     [click_at (800, 600) 400 (100, 100),
      press_add (800, 600) 400 ''door'' ''2024-05-01 10:00:00'',
      idle (Some (100, 100)) 400] init_state
     = \<lparr>annotations = [door], image_width = 100, image_height = 100, display_width = 400,
        awaiting_label = False, current_point = None\<rparr>
   \<and> x door = 200 \<and> y door = 200
   \<and> in_image 800 600 (x door, y door)
   \<and> \<not> in_image 100 100 (x door, y door)"
proof -
  have "main_run (idle (Some (100, 100)) 400) one_annotation
          = (Done, one_annotation\<lparr>image_width := 100, image_height := 100\<rparr>)"
    by (simp add: main_run_def sidebar_def idle_def and_then_def main_area_def
        scale_100_100_400 image_column_def annotation_form_def undo_section_def
        one_annotation_def)
  then show ?thesis
    by (simp add: first_click first_label one_annotation_def door_def in_image_def)
qed

end
